theory Spec2Isabelle
  imports Complex_Main "HOL-Library.Word"
begin

section \<open>JavaScript strings\<close>

text \<open>
  A JavaScript string is a sequence of UTF-16 code units, so a character is a 16-bit
  word and \<open>length\<close> counts what \<open>String.prototype.length\<close> counts.  \<open>str\<close> turns
  an Isabelle literal into such a sequence; it is only used to write literals.
\<close>

type_synonym jschar = "16 word"
type_synonym jsstring = "jschar list"

definition str :: "string \<Rightarrow> jsstring" where
  "str s = map (\<lambda>c. of_nat (of_char c)) s"

definition comma :: jschar where "comma = 0x2C"
definition semicolon :: jschar where "semicolon = 0x3B"
definition bar :: jschar where "bar = 0x7C"
definition equals :: jschar where "equals = 0x3D"
definition dot :: jschar where "dot = 0x2E"
definition plus_sign :: jschar where "plus_sign = 0x2B"
definition minus_sign :: jschar where "minus_sign = 0x2D"

text \<open>
  The code units that \<open>trim\<close>, \<open>parseFloat\<close> and \<open>Number\<close> strip: ECMAScript's
  WhiteSpace and LineTerminator (TAB, LF, VT, FF, CR, SP, NBSP, U+1680, U+2000..U+200A,
  U+2028, U+2029, U+202F, U+205F, U+3000, U+FEFF).
\<close>

definition is_space :: "jschar \<Rightarrow> bool" where
  "is_space c =
     (c = 0x09 \<or> c = 0x0A \<or> c = 0x0B \<or> c = 0x0C \<or> c = 0x0D \<or> c = 0x20 \<or> c = 0xA0 \<or>
      c = 0x1680 \<or> (0x2000 \<le> c \<and> c \<le> 0x200A) \<or> c = 0x2028 \<or> c = 0x2029 \<or>
      c = 0x202F \<or> c = 0x205F \<or> c = 0x3000 \<or> c = 0xFEFF)"

text \<open>The class \<open>\d\<close> of a regular expression, and a decimal digit of a numeric literal.\<close>

definition is_digit :: "jschar \<Rightarrow> bool" where
  "is_digit c = (0x30 \<le> c \<and> c \<le> 0x39)"

definition js_trimStart :: "jsstring \<Rightarrow> jsstring" where
  "js_trimStart s = dropWhile is_space s"

definition js_trimEnd :: "jsstring \<Rightarrow> jsstring" where
  "js_trimEnd s = rev (dropWhile is_space (rev s))"

definition js_trim :: "jsstring \<Rightarrow> jsstring" where
  "js_trim s = js_trimEnd (js_trimStart s)"

text \<open>
  \<open>s.split(sep)\<close> for a separator of one code unit: every occurrence separates, and the
  empty string splits into one empty piece.
\<close>

fun js_split :: "jschar \<Rightarrow> jsstring \<Rightarrow> jsstring list" where
  "js_split sep [] = [[]]"
| "js_split sep (c # cs) =
     (if c = sep then [] # js_split sep cs
      else (case js_split sep cs of [] \<Rightarrow> [[c]] | p # ps \<Rightarrow> (c # p) # ps))"

definition js_includes :: "jsstring \<Rightarrow> jschar \<Rightarrow> bool" where
  "js_includes s c = (c \<in> set s)"

text \<open>\<open>s.replace(a, b)\<close> with a string pattern replaces the first occurrence only.\<close>

fun js_replace :: "jschar \<Rightarrow> jschar \<Rightarrow> jsstring \<Rightarrow> jsstring" where
  "js_replace a b [] = []"
| "js_replace a b (c # cs) = (if c = a then b # cs else c # js_replace a b cs)"

subsection \<open>Values that may be undefined\<close>

text \<open>
  A destructured array element is a string or \<open>undefined\<close> (\<open>None\<close>).  Calling a
  method on \<open>undefined\<close> throws a TypeError; the optional chaining \<open>x?.m()\<close> yields
  \<open>undefined\<close> instead.
\<close>

datatype error = TypeError

definition elem_at :: "'a list \<Rightarrow> nat \<Rightarrow> 'a option" where
  "elem_at xs i = (if i < length xs then Some (xs ! i) else None)"

definition truthy :: "jsstring option \<Rightarrow> bool" where
  "truthy v = (case v of None \<Rightarrow> False | Some s \<Rightarrow> s \<noteq> [])"

definition call :: "'a option \<Rightarrow> ('a \<Rightarrow> 'b) \<Rightarrow> error + 'b" where
  "call recv m = (case recv of None \<Rightarrow> Inl TypeError | Some x \<Rightarrow> Inr (m x))"

definition opt_call :: "'a option \<Rightarrow> ('a \<Rightarrow> 'b) \<Rightarrow> 'b option" where
  "opt_call recv m = (case recv of None \<Rightarrow> None | Some x \<Rightarrow> Some (m x))"

definition or_else :: "jsstring option \<Rightarrow> jsstring \<Rightarrow> jsstring" where
  "or_else v d = (case v of None \<Rightarrow> d | Some s \<Rightarrow> if s = [] then d else s)"

fun mapE :: "('a \<Rightarrow> error + 'b) \<Rightarrow> 'a list \<Rightarrow> error + 'b list" where
  "mapE f [] = Inr []"
| "mapE f (x # xs) =
     (case f x of Inl e \<Rightarrow> Inl e
      | Inr y \<Rightarrow> (case mapE f xs of Inl e \<Rightarrow> Inl e | Inr ys \<Rightarrow> Inr (y # ys)))"

section \<open>JavaScript numbers\<close>

text \<open>
  A Number is NaN, an infinity, or a finite binary64 value, kept as its sign
  (\<open>True\<close> for negative, so that \<open>-0\<close> is \<open>Num True 0\<close>) and its exact magnitude.
  \<open>to_double\<close> rounds a non-negative rational to the nearest binary64 value, ties to
  even: 53 significant bits, least exponent -1022 (below it the subnormals, in steps of
  \<open>2^-1074\<close>), and infinity from \<open>2^1024\<close> on.  (ECMAScript allows an engine to
  round a literal of more than 20 significant digits less exactly; the engines in use
  round it correctly, as is done here.)
\<close>

datatype number = NaN | Infinity bool | Num bool rat

definition js_isNaN :: "number \<Rightarrow> bool" where
  "js_isNaN n = (case n of NaN \<Rightarrow> True | _ \<Rightarrow> False)"

definition ge_zero :: "number \<Rightarrow> bool" where
  "ge_zero n = (case n of NaN \<Rightarrow> False | Infinity neg \<Rightarrow> \<not> neg | Num neg m \<Rightarrow> (if neg then m = 0 else True))"

definition truthy_num :: "number \<Rightarrow> bool" where
  "truthy_num n = (case n of NaN \<Rightarrow> False | Infinity neg \<Rightarrow> True | Num neg m \<Rightarrow> m \<noteq> 0)"

definition js_zero :: number where
  "js_zero = Num False 0"

definition num_or_else :: "number \<Rightarrow> number \<Rightarrow> number" where
  "num_or_else n d = (if truthy_num n then n else d)"

fun bitlen :: "nat \<Rightarrow> nat" where
  "bitlen n = (if n = 0 then 0 else Suc (bitlen (n div 2)))"

declare bitlen.simps [simp del]

definition pow2 :: "int \<Rightarrow> rat" where
  "pow2 e = (if 0 \<le> e then 2 ^ nat e else 1 / 2 ^ nat (- e))"

definition pow10 :: "int \<Rightarrow> rat" where
  "pow10 e = (if 0 \<le> e then 10 ^ nat e else 1 / 10 ^ nat (- e))"

text \<open>
  The exponent \<open>e\<close> with \<open>2^e \<le> q < 2^(e+1)\<close>, for \<open>q > 0\<close>: from the bit length
  of \<open>\<lfloor>q\<rfloor>\<close> when \<open>q \<ge> 1\<close>, of \<open>\<lceil>1/q\<rceil> - 1\<close> otherwise.
\<close>

definition floor_log2 :: "rat \<Rightarrow> int" where
  "floor_log2 q =
     (if 1 \<le> q then int (bitlen (nat \<lfloor>q\<rfloor>)) - 1
      else - int (bitlen (nat (\<lceil>1 / q\<rceil> - 1))))"

definition round_half_even :: "rat \<Rightarrow> int" where
  "round_half_even x =
     (let f = \<lfloor>x\<rfloor>; r = x - of_int f
      in if r < 1 / 2 then f else if 1 / 2 < r then f + 1 else if even f then f else f + 1)"

definition to_double :: "bool \<Rightarrow> rat \<Rightarrow> number" where
  "to_double neg q =
     (if q = 0 then Num neg 0
      else let e = max (floor_log2 q) (- 1022);
               ulp = pow2 (e - 52);
               r = of_int (round_half_even (q / ulp)) * ulp
           in if pow2 1024 \<le> r then Infinity neg else Num neg r)"

subsection \<open>Numeric literals in strings\<close>

definition digit_val :: "jschar \<Rightarrow> nat" where
  "digit_val c = unat c - 48"

definition digits_val :: "jsstring \<Rightarrow> nat" where
  "digits_val ds = foldl (\<lambda>a c. 10 * a + digit_val c) 0 ds"

text \<open>
  An optional ExponentPart (\<open>e\<close> or \<open>E\<close>, an optional sign, one digit or more) at the
  head of the string: its value and what follows it, or 0 and the string itself.
\<close>

definition exponent_part :: "jsstring \<Rightarrow> int \<times> jsstring" where
  "exponent_part s =
     (case s of
        [] \<Rightarrow> (0, s)
      | c # r \<Rightarrow>
          if c = 0x65 \<or> c = 0x45 then
            (let neg = (case r of [] \<Rightarrow> False | d # _ \<Rightarrow> d = minus_sign);
                 r1 = (case r of [] \<Rightarrow> r
                       | d # r' \<Rightarrow> if d = plus_sign \<or> d = minus_sign then r' else r);
                 ds = takeWhile is_digit r1
             in if ds = [] then (0, s)
                else ((if neg then - int (digits_val ds) else int (digits_val ds)),
                      dropWhile is_digit r1))
          else (0, s))"

text \<open>
  The longest prefix that is a StrUnsignedDecimalLiteral (\<open>Infinity\<close>, \<open>d+.d*\<close>,
  \<open>.d+\<close> or \<open>d+\<close>, then an optional exponent): its mathematical value (\<open>None\<close> for
  Infinity) and the rest of the string; \<open>None\<close> when no prefix is such a literal.
\<close>

definition unsigned_decimal :: "jsstring \<Rightarrow> (rat option \<times> jsstring) option" where
  "unsigned_decimal s =
     (if take 8 s = str ''Infinity'' then Some (None, drop 8 s)
      else
        let ip = takeWhile is_digit s; r1 = dropWhile is_digit s
        in (case r1 of
              [] \<Rightarrow> if ip = [] then None else Some (Some (of_nat (digits_val ip)), [])
            | c # r2 \<Rightarrow>
                if c = dot then
                  (let fp = takeWhile is_digit r2; r3 = dropWhile is_digit r2
                   in if ip = [] \<and> fp = [] then None
                      else (let (e, r4) = exponent_part r3
                            in Some (Some (of_nat (digits_val (ip @ fp)) * pow10 (e - int (length fp))), r4)))
                else if ip = [] then None
                else (let (e, r4) = exponent_part r1
                      in Some (Some (of_nat (digits_val ip) * pow10 e), r4))))"

definition str_decimal_literal :: "jsstring \<Rightarrow> (number \<times> jsstring) option" where
  "str_decimal_literal s =
     (let neg = (case s of [] \<Rightarrow> False | c # _ \<Rightarrow> c = minus_sign);
          r = (case s of [] \<Rightarrow> s | c # r' \<Rightarrow> if c = plus_sign \<or> c = minus_sign then r' else s)
      in (case unsigned_decimal r of
            None \<Rightarrow> None
          | Some (None, rest) \<Rightarrow> Some (Infinity neg, rest)
          | Some (Some q, rest) \<Rightarrow> Some (to_double neg q, rest)))"

text \<open>
  \<open>parseFloat(s)\<close>: leading white space is skipped, the longest prefix that is a decimal
  literal is converted, and what follows it is ignored; NaN when there is no such prefix.
\<close>

definition js_parseFloat :: "jsstring \<Rightarrow> number" where
  "js_parseFloat s =
     (case str_decimal_literal (js_trimStart s) of None \<Rightarrow> NaN | Some (n, rest) \<Rightarrow> n)"

text \<open>
  \<open>Number(v)\<close>: NaN for \<open>undefined\<close>; for a string, white space is trimmed on both
  sides, the empty string is 0, and the whole of what remains must be a decimal literal
  or an unsigned binary, octal or hexadecimal integer literal.
\<close>

definition radix_digit :: "jschar \<Rightarrow> nat option" where
  "radix_digit c =
     (if 0x30 \<le> c \<and> c \<le> 0x39 then Some (unat c - 48)
      else if 0x61 \<le> c \<and> c \<le> 0x66 then Some (unat c - 87)
      else if 0x41 \<le> c \<and> c \<le> 0x46 then Some (unat c - 55)
      else None)"

definition radix_val :: "nat \<Rightarrow> jsstring \<Rightarrow> nat option" where
  "radix_val b ds =
     (if ds \<noteq> [] \<and> list_all (\<lambda>c. case radix_digit c of None \<Rightarrow> False | Some d \<Rightarrow> d < b) ds
      then Some (foldl (\<lambda>a c. b * a + (case radix_digit c of None \<Rightarrow> 0 | Some d \<Rightarrow> d)) 0 ds)
      else None)"

definition non_decimal_literal :: "jsstring \<Rightarrow> nat option" where
  "non_decimal_literal s =
     (case s of
        z # x # ds \<Rightarrow>
          if z \<noteq> 0x30 then None
          else if x = 0x78 \<or> x = 0x58 then radix_val 16 ds
          else if x = 0x6F \<or> x = 0x4F then radix_val 8 ds
          else if x = 0x62 \<or> x = 0x42 then radix_val 2 ds
          else None
      | _ \<Rightarrow> None)"

definition js_Number :: "jsstring option \<Rightarrow> number" where
  "js_Number v =
     (case v of
        None \<Rightarrow> NaN
      | Some s \<Rightarrow>
          (let t = js_trim s
           in if t = [] then js_zero
              else (case non_decimal_literal t of
                      Some n \<Rightarrow> to_double False (of_nat n)
                    | None \<Rightarrow>
                        (case str_decimal_literal t of
                           None \<Rightarrow> NaN
                         | Some (n, rest) \<Rightarrow> if rest = [] then n else NaN))))"

section \<open>The product string validator\<close>

subsection \<open>Attributes\<close>

text \<open>
  \<open>{ [key]: value }\<close> is an object with one property: a pair of the property name and
  its value, which is \<open>undefined\<close> when the piece has no \<open>=\<close>.  A key that is
  \<open>undefined\<close> would name the property \<open>"undefined"\<close>.
\<close>

type_synonym attribute = "jsstring \<times> jsstring option"

definition property_key :: "jsstring option \<Rightarrow> jsstring" where
  "property_key k = (case k of None \<Rightarrow> str ''undefined'' | Some s \<Rightarrow> s)"

definition processEventAttributes :: "jsstring option \<Rightarrow> error + attribute list option" where
  "processEventAttributes eventAttribute =
     (if eventAttribute = None
         \<or> \<not> (case opt_call eventAttribute (\<lambda>e. js_includes e bar) of None \<Rightarrow> False | Some b \<Rightarrow> b)
      then Inr None
      else (case call eventAttribute (js_split bar) of
              Inl e \<Rightarrow> Inl e
            | Inr pieces \<Rightarrow>
                Inr (Some (map (\<lambda>event.
                       let kv = js_split equals event;
                           key = elem_at kv 0;
                           val = elem_at kv 1
                       in (property_key key, val)) pieces))))"

definition normalizeAttributes :: "jsstring option \<Rightarrow> error + attribute list" where
  "normalizeAttributes raw =
     (case (if truthy raw then processEventAttributes raw else Inr (Some [])) of
        Inl e \<Rightarrow> Inl e
      | Inr result \<Rightarrow> Inr (case result of None \<Rightarrow> [] | Some r \<Rightarrow> r))"

subsection \<open>Products\<close>

record Product =
  category :: jsstring
  item :: jsstring
  quantity :: number
  price :: number
  events :: "attribute list"
  evars :: "attribute list"
  isValid :: bool

definition parseProduct :: "jsstring \<Rightarrow> error + Product" where
  "parseProduct product =
     (let parts = js_split semicolon product;
          category_s = elem_at parts 0;
          item_s = elem_at parts 1;
          quantity_s = elem_at parts 2;
          price_s = elem_at parts 3;
          rawEvents = elem_at parts 4;
          rawEvars = elem_at parts 5;
          hasMinimumParts = (4 \<le> length parts)
      in (case (if truthy item_s
                then (case call item_s js_trim of Inl e \<Rightarrow> Inl e | Inr t \<Rightarrow> Inr (t \<noteq> []))
                else Inr False) of
            Inl e \<Rightarrow> Inl e
          | Inr hasValidItem \<Rightarrow>
              (let parsedPrice = js_parseFloat (or_else (opt_call price_s (js_replace comma dot)) (str ''0''));
                   isValidPrice = (\<not> js_isNaN parsedPrice \<and> ge_zero parsedPrice)
               in (case normalizeAttributes rawEvents of
                     Inl e \<Rightarrow> Inl e
                   | Inr evs \<Rightarrow>
                       (case normalizeAttributes rawEvars of
                          Inl e \<Rightarrow> Inl e
                        | Inr evrs \<Rightarrow>
                            Inr \<lparr> category = or_else category_s [],
                                  item = or_else item_s [],
                                  quantity = num_or_else (js_Number quantity_s) js_zero,
                                  price = parsedPrice,
                                  events = evs,
                                  evars = evrs,
                                  isValid = (hasMinimumParts \<and> hasValidItem \<and> isValidPrice) \<rparr>)))))"

subsection \<open>The whole string\<close>

text \<open>The two tests on a trimmed category: \<open>/^\d+[.,]\d*$/\<close> and \<open>/^\d+$/\<close>.\<close>

definition looks_like_price :: "jsstring \<Rightarrow> bool" where
  "looks_like_price x =
     (takeWhile is_digit x \<noteq> []
      \<and> (case dropWhile is_digit x of
            [] \<Rightarrow> False
          | c # r \<Rightarrow> (c = dot \<or> c = comma) \<and> list_all is_digit r))"

definition just_numbers :: "jsstring \<Rightarrow> bool" where
  "just_numbers x = (x \<noteq> [] \<and> list_all is_digit x)"

text \<open>
  The first \<open>forEach\<close>: the flag \<open>hasCascadingError\<close> after one product, and after all
  of them.  (The warnings written to the console are not part of the result.)
\<close>

definition detectStep :: "Product \<Rightarrow> bool \<Rightarrow> bool" where
  "detectStep product hasCascadingError =
     (let flag1 = (if category product \<noteq> [] \<and> looks_like_price (js_trim (category product))
                   then True else hasCascadingError)
      in if category product \<noteq> [] \<and> just_numbers (js_trim (category product))
         then True else flag1)"

definition detectCascading :: "Product list \<Rightarrow> bool" where
  "detectCascading products = fold detectStep products False"

text \<open>The second \<open>forEach\<close>, run when the flag is set: it writes \<open>isValid\<close> only.\<close>

definition cascadeInvalidity :: "bool \<Rightarrow> Product list \<Rightarrow> Product list" where
  "cascadeInvalidity hasCascadingError products =
     (if hasCascadingError
      then map (\<lambda>product. if isValid product then product\<lparr>isValid := False\<rparr> else product) products
      else products)"

definition validateProductString :: "jsstring \<Rightarrow> error + Product list" where
  "validateProductString s =
     (if js_trim s = [] then Inr []
      else (let rawProducts = js_split comma s
            in (case mapE parseProduct rawProducts of
                  Inl e \<Rightarrow> Inl e
                | Inr products \<Rightarrow>
                    Inr (cascadeInvalidity (detectCascading products) products))))"

text \<open>
  The component's whole-string flag: \<open>!validationResult.some(p => !p.isValid)\<close>.
\<close>

definition isStringValid :: "Product list \<Rightarrow> bool" where
  "isStringValid validationResult = (\<not> list_ex (\<lambda>p. \<not> isValid p) validationResult)"

section \<open>The rules in the words of the specification\<close>

text \<open>
  The validity rule as the specification words it, to be compared with \<open>isValid\<close> of
  \<open>parseProduct\<close>: the segment has four fields or more, the name is not empty after
  trimming, and the price field, with its first comma replaced by a dot, parses to a
  number that is not negative.  An absent price defaults to 0; in a segment of four
  fields the price can only be absent as the empty field.
\<close>

definition spec_price_ok :: "jsstring \<Rightarrow> bool" where
  "spec_price_ok field =
     (let n = (if field = [] then js_zero else js_parseFloat (js_replace comma dot field))
      in \<not> js_isNaN n \<and> ge_zero n)"

definition spec_isValid :: "jsstring \<Rightarrow> bool" where
  "spec_isValid segment =
     (case js_split semicolon segment of
        c # name # q # price_field # rest \<Rightarrow> js_trim name \<noteq> [] \<and> spec_price_ok price_field
      | _ \<Rightarrow> False)"

text \<open>
  A decimal number that is not negative, as it stands at the head of a price field:
  one digit or more, then optionally a dot and digits (\<open>/^\d+(\.\d*)?$/\<close>); and its
  mathematical value.
\<close>

definition decimal_number :: "jsstring \<Rightarrow> bool" where
  "decimal_number p =
     (takeWhile is_digit p \<noteq> []
      \<and> (case dropWhile is_digit p of [] \<Rightarrow> True | c # fp \<Rightarrow> c = dot \<and> list_all is_digit fp))"

definition decimal_value :: "jsstring \<Rightarrow> rat" where
  "decimal_value p =
     (let ip = takeWhile is_digit p; fp = drop 1 (dropWhile is_digit p)
      in of_nat (digits_val (ip @ fp)) / 10 ^ length fp)"

section \<open>Auxiliary facts\<close>

subsection \<open>Strings and lists\<close>

lemma js_split_not_Nil: "js_split sep s \<noteq> []"
  by (induction s) (auto split: list.splits)

lemma length_js_split: "length (js_split sep s) = Suc (length (filter (\<lambda>c. c = sep) s))"
  by (induction s) (auto split: list.splits simp: js_split_not_Nil)

lemma js_split_no_sep: "sep \<notin> set s \<Longrightarrow> js_split sep s = [s]"
  by (induction s) auto

lemma js_split_piece_no_sep: "p \<in> set (js_split sep s) \<Longrightarrow> sep \<notin> set p"
  by (induction s arbitrary: p) (auto split: if_splits list.splits)

lemma js_split_piece_subset: "p \<in> set (js_split sep s) \<Longrightarrow> set p \<subseteq> set s"
proof (induction s arbitrary: p)
  case Nil
  then show ?case by simp
next
  case (Cons c cs)
  obtain q qs where q: "js_split sep cs = q # qs"
    using js_split_not_Nil [of sep cs] by (cases "js_split sep cs") auto
  show ?case
  proof (cases "c = sep")
    case True
    with Cons show ?thesis by auto
  next
    case False
    with Cons.prems q have "p = c # q \<or> p \<in> set qs" by simp
    moreover have "set q \<subseteq> set cs" using Cons.IH [of q] q by simp
    moreover have "p \<in> set qs \<Longrightarrow> set p \<subseteq> set cs" using Cons.IH [of p] q by simp
    ultimately show ?thesis by auto
  qed
qed

lemma js_replace_id: "a \<notin> set s \<Longrightarrow> js_replace a b s = s"
  by (induction s) auto

lemma js_trim_Nil_iff: "js_trim s = [] \<longleftrightarrow> list_all is_space s"
proof -
  have "js_trim s = [] \<longleftrightarrow> (\<forall>x\<in>set (dropWhile is_space s). is_space x)"
    by (simp add: js_trim_def js_trimEnd_def js_trimStart_def dropWhile_eq_Nil_conv)
  also have "\<dots> \<longleftrightarrow> dropWhile is_space s = []"
  proof
    assume all: "\<forall>x\<in>set (dropWhile is_space s). is_space x"
    show "dropWhile is_space s = []"
    proof (rule ccontr)
      assume ne: "dropWhile is_space s \<noteq> []"
      then have "\<not> is_space (hd (dropWhile is_space s))" by (rule hd_dropWhile)
      moreover from ne have "hd (dropWhile is_space s) \<in> set (dropWhile is_space s)" by simp
      ultimately show False using all by blast
    qed
  next
    assume e: "dropWhile is_space s = []"
    show "\<forall>x\<in>set (dropWhile is_space s). is_space x" unfolding e by simp
  qed
  also have "\<dots> \<longleftrightarrow> list_all is_space s"
    by (simp add: dropWhile_eq_Nil_conv list_all_iff)
  finally show ?thesis .
qed

lemma mapE_Inr_length: "mapE f xs = Inr ys \<Longrightarrow> length ys = length xs"
  by (induction xs arbitrary: ys) (auto split: sum.splits)

lemma mapE_Inr_nth: "mapE f xs = Inr ys \<Longrightarrow> i < length xs \<Longrightarrow> f (xs ! i) = Inr (ys ! i)"
  by (induction xs arbitrary: ys i) (auto split: sum.splits simp: nth_Cons split: nat.splits)

lemma mapE_total: "(\<And>x. \<exists>y. f x = Inr y) \<Longrightarrow> \<exists>ys. mapE f xs = Inr ys"
proof (induction xs)
  case Nil
  show ?case by simp
next
  case (Cons x xs)
  from Cons.prems obtain y where "f x = Inr y" by blast
  moreover from Cons obtain ys where "mapE f xs = Inr ys" by blast
  ultimately show ?case by simp
qed

lemma normalizeAttributes_total: "\<exists>as. normalizeAttributes raw = Inr as"
  by (cases raw) (auto simp: normalizeAttributes_def processEventAttributes_def truthy_def call_def opt_call_def)

lemma normalizeAttributes_no_bar:
  "bar \<notin> set raw \<Longrightarrow> normalizeAttributes (Some raw) = Inr []"
  by (auto simp: normalizeAttributes_def processEventAttributes_def truthy_def call_def opt_call_def js_includes_def)

subsection \<open>The segment parser\<close>

lemma hasValidItem_Inr:
  "(if truthy v then (case call v js_trim of Inl e \<Rightarrow> Inl e | Inr t \<Rightarrow> Inr (t \<noteq> [])) else Inr False)
     = Inr (case v of None \<Rightarrow> False | Some i \<Rightarrow> js_trim i \<noteq> [])"
  by (cases v) (auto simp: truthy_def call_def js_trim_def js_trimStart_def js_trimEnd_def)

lemma parseProduct_Inr:
  "\<exists>evs evrs. parseProduct product =
     Inr \<lparr> category = or_else (elem_at (js_split semicolon product) 0) [],
           item = or_else (elem_at (js_split semicolon product) 1) [],
           quantity = num_or_else (js_Number (elem_at (js_split semicolon product) 2)) js_zero,
           price = js_parseFloat (or_else (opt_call (elem_at (js_split semicolon product) 3) (js_replace comma dot)) (str ''0'')),
           events = evs,
           evars = evrs,
           isValid = (4 \<le> length (js_split semicolon product)
              \<and> (case elem_at (js_split semicolon product) 1 of None \<Rightarrow> False | Some i \<Rightarrow> js_trim i \<noteq> [])
              \<and> \<not> js_isNaN (js_parseFloat (or_else (opt_call (elem_at (js_split semicolon product) 3) (js_replace comma dot)) (str ''0'')))
              \<and> ge_zero (js_parseFloat (or_else (opt_call (elem_at (js_split semicolon product) 3) (js_replace comma dot)) (str ''0'')))) \<rparr>"
proof -
  obtain evs where a: "normalizeAttributes (elem_at (js_split semicolon product) 4) = Inr evs"
    using normalizeAttributes_total by blast
  obtain evrs where b: "normalizeAttributes (elem_at (js_split semicolon product) 5) = Inr evrs"
    using normalizeAttributes_total by blast
  show ?thesis
    unfolding parseProduct_def Let_def hasValidItem_Inr a b by simp
qed

lemma parseProduct_total: "\<exists>p. parseProduct product = Inr p"
  using parseProduct_Inr [of product] by blast

lemma parseProduct_category:
  "parseProduct product = Inr p \<Longrightarrow> category p = hd (js_split semicolon product)"
  using parseProduct_Inr [of product] js_split_not_Nil [of semicolon product]
  by (cases "js_split semicolon product") (auto simp: elem_at_def or_else_def)

lemma parseProduct_isValid:
  "parseProduct product = Inr p \<Longrightarrow>
   isValid p = (4 \<le> length (js_split semicolon product)
              \<and> (case elem_at (js_split semicolon product) 1 of None \<Rightarrow> False | Some i \<Rightarrow> js_trim i \<noteq> [])
              \<and> \<not> js_isNaN (js_parseFloat (or_else (opt_call (elem_at (js_split semicolon product) 3) (js_replace comma dot)) (str ''0'')))
              \<and> ge_zero (js_parseFloat (or_else (opt_call (elem_at (js_split semicolon product) 3) (js_replace comma dot)) (str ''0''))))"
  using parseProduct_Inr [of product] by auto

lemma parseProduct_price:
  "parseProduct product = Inr p \<Longrightarrow>
   price p = js_parseFloat (or_else (opt_call (elem_at (js_split semicolon product) 3) (js_replace comma dot)) (str ''0''))"
  using parseProduct_Inr [of product] by auto

lemma validateProductString_total: "\<exists>ps. validateProductString s = Inr ps"
proof -
  obtain ps where "mapE parseProduct (js_split comma s) = Inr ps"
    using mapE_total [of parseProduct "js_split comma s"] parseProduct_total by blast
  then show ?thesis by (simp add: validateProductString_def)
qed

lemma length_cascadeInvalidity: "length (cascadeInvalidity b ps) = length ps"
  by (simp add: cascadeInvalidity_def)

lemma validateProductString_length:
  "\<exists>ps. validateProductString s = Inr ps \<and> length ps = (if js_trim s = [] then 0 else length (js_split comma s))"
proof -
  obtain ps where ps: "mapE parseProduct (js_split comma s) = Inr ps"
    using mapE_total [of parseProduct "js_split comma s"] parseProduct_total by blast
  then have "length ps = length (js_split comma s)" by (rule mapE_Inr_length)
  with ps show ?thesis by (simp add: validateProductString_def length_cascadeInvalidity)
qed

lemma is_space_not_comma: "is_space c \<Longrightarrow> c \<noteq> comma"
  by (auto simp: is_space_def comma_def)

subsection \<open>The rounding to binary64\<close>

text \<open>
  \<open>floor_log2\<close> is the binary exponent, \<open>round_half_even\<close> is within one half of its
  argument, and a finite result of \<open>to_double\<close> is within half a unit in the last
  place of the number rounded.
\<close>

lemma bitlen_bounds: "0 < n \<Longrightarrow> 2 ^ (bitlen n - 1) \<le> n \<and> n < 2 ^ bitlen n"
proof (induction n rule: bitlen.induct)
  case (1 n)
  show ?case
  proof (cases "n div 2 = 0")
    case True
    with "1.prems" have "n = 1" by (simp add: div_eq_0_iff) 
    then show ?thesis by (simp add: bitlen.simps)
  next
    case False
    then have pos: "0 < n div 2" by simp
    from "1.IH" [OF _ pos] "1.prems"
    have ih: "2 ^ (bitlen (n div 2) - 1) \<le> n div 2" "n div 2 < 2 ^ bitlen (n div 2)" by auto
    have b: "bitlen n = Suc (bitlen (n div 2))" using "1.prems" by (subst bitlen.simps) simp
    have k: "0 < bitlen (n div 2)" using pos by (subst bitlen.simps) simp
    then obtain j where j: "bitlen (n div 2) = Suc j" by (cases "bitlen (n div 2)") auto
    from ih(1) j have "2 * 2 ^ j \<le> 2 * (n div 2)" by simp
    also have "\<dots> \<le> n" by simp
    finally have lo: "2 ^ (bitlen n - 1) \<le> n" by (simp add: b j)
    from ih(2) have "n div 2 + 1 \<le> 2 ^ bitlen (n div 2)" by simp
    then have "2 * (n div 2) + 2 \<le> 2 * 2 ^ bitlen (n div 2)" by simp
    moreover have "n < 2 * (n div 2) + 2" by presburger
    ultimately have hi: "n < 2 ^ bitlen n" by (simp add: b)
    from lo hi show ?thesis by simp
  qed
qed

lemma round_half_even_error: "\<bar>of_int (round_half_even x) - x\<bar> \<le> 1 / 2"
proof -
  have "of_int \<lfloor>x\<rfloor> \<le> x" "x < of_int \<lfloor>x\<rfloor> + 1" by linarith+
  then show ?thesis by (auto simp: round_half_even_def Let_def)
qed

lemma floor_log2_bounds:
  assumes "0 < q"
  shows "pow2 (floor_log2 q) \<le> q \<and> q < pow2 (floor_log2 q + 1)"
proof (cases "1 \<le> q")
  case True
  let ?n = "nat \<lfloor>q\<rfloor>"
  have n: "0 < ?n" using True by simp
  from bitlen_bounds [OF n] have lo: "2 ^ (bitlen ?n - 1) \<le> ?n" and hi: "?n < 2 ^ bitlen ?n" by auto
  have bl: "0 < bitlen ?n" using n by (subst bitlen.simps) simp
  have e: "floor_log2 q = int (bitlen ?n - 1)" using True bl by (simp add: floor_log2_def)
  have nq: "of_nat ?n \<le> q" using True by (simp add: of_nat_nat) 
  have qn: "q < of_nat ?n + 1" using True by (simp add: of_nat_nat) linarith
  from lo have "(of_nat (2 ^ (bitlen ?n - 1)) :: rat) \<le> of_nat ?n" by (simp only: of_nat_le_iff)
  then have "(2::rat) ^ (bitlen ?n - 1) \<le> of_nat ?n" by (simp only: of_nat_power of_nat_numeral)
  then have "(2::rat) ^ (bitlen ?n - 1) \<le> q" using nq by (rule order_trans)
  then have A: "pow2 (floor_log2 q) \<le> q" by (simp add: e pow2_def)
  from hi have "Suc ?n \<le> 2 ^ bitlen ?n" by (rule Suc_leI)
  then have "(of_nat (Suc ?n) :: rat) \<le> of_nat (2 ^ bitlen ?n)" by (simp only: of_nat_le_iff)
  then have "(of_nat ?n :: rat) + 1 \<le> 2 ^ bitlen ?n"
    by (simp only: of_nat_Suc of_nat_power of_nat_numeral)
  with qn have "q < 2 ^ bitlen ?n" by (rule less_le_trans)
  moreover have "floor_log2 q + 1 = int (bitlen ?n)" using e bl by simp
  ultimately have B: "q < pow2 (floor_log2 q + 1)" by (simp add: pow2_def)
  from A B show ?thesis by simp
next
  case False
  then have q1: "q < 1" by simp
  let ?m = "\<lceil>1 / q\<rceil>"
  have inv: "1 < 1 / q" using assms q1 by simp
  then have m2: "2 \<le> ?m" by linarith
  let ?n = "nat (?m - 1)"
  have n: "0 < ?n" using m2 by simp
  from bitlen_bounds [OF n] have lo: "2 ^ (bitlen ?n - 1) \<le> ?n" and hi: "?n < 2 ^ bitlen ?n" by auto
  have bl: "0 < bitlen ?n" using n by (subst bitlen.simps) simp
  have e: "floor_log2 q = - int (bitlen ?n)" using False by (simp add: floor_log2_def)
  have "0 \<le> ?m - 1" using m2 by linarith
  then have "(of_nat ?n :: rat) = of_int (?m - 1)" by (rule of_nat_nat)
  then have n1: "(of_nat ?n :: rat) = of_int ?m - 1" by simp
  have up: "1 / q \<le> of_int ?m" by linarith
  have dn: "of_int ?m - 1 < 1 / q" by linarith
  from hi have "Suc ?n \<le> 2 ^ bitlen ?n" by (rule Suc_leI)
  then have "(of_nat (Suc ?n) :: rat) \<le> of_nat (2 ^ bitlen ?n)" by (simp only: of_nat_le_iff)
  then have "(of_nat ?n :: rat) + 1 \<le> 2 ^ bitlen ?n"
    by (simp only: of_nat_Suc of_nat_power of_nat_numeral)
  then have "of_int ?m \<le> (2::rat) ^ bitlen ?n" by (simp only: n1)
  with up have "1 / q \<le> 2 ^ bitlen ?n" by (rule order_trans)
  then have "1 \<le> 2 ^ bitlen ?n * q" using assms by (simp add: pos_divide_le_eq)
  then have "1 / 2 ^ bitlen ?n \<le> q" by (simp add: pos_divide_le_eq mult.commute)
  then have A: "pow2 (floor_log2 q) \<le> q" using bl by (simp add: e pow2_def)
  from lo have "(of_nat (2 ^ (bitlen ?n - 1)) :: rat) \<le> of_nat ?n" by (simp only: of_nat_le_iff)
  then have "(2::rat) ^ (bitlen ?n - 1) \<le> of_nat ?n" by (simp only: of_nat_power of_nat_numeral)
  then have "(2::rat) ^ (bitlen ?n - 1) \<le> of_int ?m - 1" by (simp only: n1)
  then have "2 ^ (bitlen ?n - 1) < 1 / q" using dn by (rule le_less_trans)
  then have "2 ^ (bitlen ?n - 1) * q < 1" using assms by (simp add: pos_less_divide_eq)
  then have lt: "q < 1 / 2 ^ (bitlen ?n - 1)" by (simp add: pos_less_divide_eq mult.commute)
  have B: "q < pow2 (floor_log2 q + 1)"
  proof (cases "bitlen ?n = 1")
    case True
    then show ?thesis using q1 by (simp add: e pow2_def)
  next
    case False
    with bl have "1 < bitlen ?n" by simp
    then have "floor_log2 q + 1 < 0" "nat (- (floor_log2 q + 1)) = bitlen ?n - 1" by (simp_all add: e)
    then show ?thesis using lt by (simp add: pow2_def)
  qed
  from A B show ?thesis by simp
qed

lemma pow2_pos: "0 < pow2 e"
  by (simp add: pow2_def)

lemma to_double_nearest:
  assumes "0 < q" and "to_double neg q = Num neg' r"
  shows "\<bar>r - q\<bar> \<le> pow2 (max (floor_log2 q) (- 1022) - 52) / 2"
proof -
  let ?ulp = "pow2 (max (floor_log2 q) (- 1022) - 52)"
  let ?n = "round_half_even (q / ?ulp)"
  have u: "0 < ?ulp" by (rule pow2_pos)
  from assms have r: "r = of_int ?n * ?ulp"
    by (auto simp: to_double_def Let_def split: if_splits)
  have "r - q = (of_int ?n - q / ?ulp) * ?ulp" using u by (simp add: r field_simps)
  then have "\<bar>r - q\<bar> = \<bar>of_int ?n - q / ?ulp\<bar> * ?ulp" using u by (simp add: abs_mult)
  also have "\<dots> \<le> (1 / 2) * ?ulp"
    using round_half_even_error [of "q / ?ulp"] u by (intro mult_right_mono) simp_all
  finally show ?thesis by simp
qed

subsection \<open>Evaluation\<close>

text \<open>
  The simplifier evaluates the model on a literal with the definitions unfolded; floors
  and ceilings of rational literals need these two facts.
\<close>

lemma floor_rat_numeral: "\<lfloor>numeral a / numeral b :: rat\<rfloor> = numeral a div numeral b"
  by (metis floor_divide_of_int_eq of_int_numeral)

lemma ceiling_rat_numeral: "\<lceil>numeral a / numeral b :: rat\<rceil> = - (- numeral a div numeral b)"
  by (metis ceiling_def floor_divide_of_int_eq minus_divide_left of_int_minus of_int_numeral)

lemmas char_defs = comma_def semicolon_def bar_def equals_def dot_def plus_sign_def minus_sign_def

lemmas eval_defs = str_def char_defs is_space_def is_digit_def js_trim_def js_trimStart_def js_trimEnd_def js_includes_def elem_at_def truthy_def call_def opt_call_def or_else_def js_isNaN_def ge_zero_def truthy_num_def js_zero_def num_or_else_def pow2_def pow10_def floor_log2_def round_half_even_def to_double_def digit_val_def digits_val_def exponent_part_def unsigned_decimal_def str_decimal_literal_def js_parseFloat_def radix_digit_def radix_val_def non_decimal_literal_def js_Number_def property_key_def processEventAttributes_def normalizeAttributes_def parseProduct_def looks_like_price_def just_numbers_def detectStep_def detectCascading_def cascadeInvalidity_def validateProductString_def isStringValid_def bitlen.simps Let_def floor_rat_numeral ceiling_rat_numeral

subsection \<open>The cascading pass\<close>

lemma detectStep_eq:
  "detectStep p b = (b \<or> (category p \<noteq> [] \<and> (looks_like_price (js_trim (category p)) \<or> just_numbers (js_trim (category p)))))"
  by (auto simp: detectStep_def Let_def)

lemma fold_detectStep:
  "fold detectStep ps b =
     (b \<or> list_ex (\<lambda>p. category p \<noteq> [] \<and> (looks_like_price (js_trim (category p)) \<or> just_numbers (js_trim (category p)))) ps)"
  by (induction ps arbitrary: b) (auto simp: detectStep_eq)

lemma detectCascading_eq:
  "detectCascading ps =
     list_ex (\<lambda>p. category p \<noteq> [] \<and> (looks_like_price (js_trim (category p)) \<or> just_numbers (js_trim (category p)))) ps"
  by (simp add: detectCascading_def fold_detectStep)

lemma js_trim_Nil [simp]: "js_trim [] = []"
  by (simp add: js_trim_def js_trimStart_def js_trimEnd_def)

lemma no_match_Nil: "\<not> looks_like_price []" "\<not> just_numbers []"
  by (simp_all add: looks_like_price_def just_numbers_def)

lemma cascadeInvalidity_True_all_invalid:
  "list_all (\<lambda>q. \<not> isValid q) (cascadeInvalidity True ps)"
  by (induction ps) (auto simp: cascadeInvalidity_def)

lemma mapE_Inr_set:
  "mapE f xs = Inr ys \<Longrightarrow> y \<in> set ys \<Longrightarrow> \<exists>x\<in>set xs. f x = Inr y"
  by (induction xs arbitrary: ys) (auto split: sum.splits)

subsection \<open>The validity rule\<close>

lemma js_parseFloat_zero: "js_parseFloat (str ''0'') = js_zero"
  by (simp add: eval_defs)

lemma js_replace_Nil_iff: "js_replace a b s = [] \<longleftrightarrow> s = []"
  by (cases s) auto

lemma price_text: "or_else (opt_call (Some f) (js_replace comma dot)) (str ''0'')
   = (if f = [] then str ''0'' else js_replace comma dot f)"
  by (simp add: or_else_def opt_call_def js_replace_Nil_iff)

lemma parseProduct_refines_spec:
  assumes "parseProduct segment = Inr p"
  shows "isValid p = spec_isValid segment"
proof -
  note v = parseProduct_isValid [OF assms]
  show ?thesis
  proof (cases "js_split semicolon segment")
    case Nil
    then show ?thesis using v by (simp add: spec_isValid_def)
  next
    case c: (Cons c r1)
    show ?thesis
    proof (cases r1)
      case Nil
      with c show ?thesis using v by (simp add: spec_isValid_def)
    next
      case n: (Cons name r2)
      show ?thesis
      proof (cases r2)
        case Nil
        with c n show ?thesis using v by (simp add: spec_isValid_def)
      next
        case q: (Cons q r3)
        show ?thesis
        proof (cases r3)
          case Nil
          with c n q show ?thesis using v by (simp add: spec_isValid_def)
        next
          case (Cons pf rest)
          with c n q have parts: "js_split semicolon segment = c # name # q # pf # rest" by simp
          show ?thesis
            unfolding v
            by (simp add: parts spec_isValid_def spec_price_ok_def elem_at_def price_text js_parseFloat_zero Let_def)
        qed
      qed
    qed
  qed
qed

subsection \<open>Decimal literals followed by characters that are not digits\<close>

lemma takeWhile_no_digits: "list_all (\<lambda>c. \<not> is_digit c) g \<Longrightarrow> takeWhile is_digit g = []"
  by (cases g) auto

lemma dropWhile_no_digits: "list_all (\<lambda>c. \<not> is_digit c) g \<Longrightarrow> dropWhile is_digit g = g"
  by (cases g) auto

lemma takeWhile_digits_append:
  "list_all is_digit ds \<Longrightarrow> list_all (\<lambda>c. \<not> is_digit c) g \<Longrightarrow> takeWhile is_digit (ds @ g) = ds"
  by (simp add: list_all_iff takeWhile_no_digits)

lemma dropWhile_digits_append:
  "list_all is_digit ds \<Longrightarrow> list_all (\<lambda>c. \<not> is_digit c) g \<Longrightarrow> dropWhile is_digit (ds @ g) = g"
  by (simp add: list_all_iff dropWhile_no_digits)

lemma exponent_part_no_digits:
  assumes "list_all (\<lambda>c. \<not> is_digit c) g"
  shows "exponent_part g = (0, g)"
proof (cases g)
  case Nil
  then show ?thesis by (simp add: exponent_part_def)
next
  case (Cons c r)
  with assms have r: "list_all (\<lambda>c. \<not> is_digit c) r" by simp
  then have t: "takeWhile is_digit r = []" by (rule takeWhile_no_digits)
  from r have "list_all (\<lambda>c. \<not> is_digit c) (tl r)" by (cases r) auto
  then have t': "takeWhile is_digit (tl r) = []" by (rule takeWhile_no_digits)
  show ?thesis
    using Cons t t' by (cases r) (auto simp: exponent_part_def Let_def)
qed

lemma not_digit_dot: "\<not> is_digit dot"
  by (simp add: is_digit_def dot_def)

lemma decimal_number_cases:
  assumes "decimal_number p"
  obtains (whole) "p \<noteq> []" "list_all is_digit p"
    | (frac) ip fp where "p = ip @ dot # fp" "ip \<noteq> []" "list_all is_digit ip" "list_all is_digit fp"
proof (cases "dropWhile is_digit p")
  case Nil
  then have "list_all is_digit p" by (simp add: dropWhile_eq_Nil_conv list_all_iff)
  moreover from assms have "p \<noteq> []" by (auto simp: decimal_number_def)
  ultimately show ?thesis using whole by blast
next
  case (Cons c fp)
  with assms have c: "c = dot" and fp: "list_all is_digit fp" and ip: "takeWhile is_digit p \<noteq> []"
    by (auto simp: decimal_number_def)
  have "p = takeWhile is_digit p @ dropWhile is_digit p" by simp
  with Cons c have "p = takeWhile is_digit p @ dot # fp" by simp
  moreover have "list_all is_digit (takeWhile is_digit p)"
    by (auto simp: list_all_iff dest: set_takeWhileD)
  ultimately show ?thesis using ip fp frac by blast
qed

lemma not_Infinity:
  assumes "p \<noteq> []" "is_digit (hd p)"
  shows "take 8 (p @ g) \<noteq> str ''Infinity''"
proof -
  from assms obtain d r where p: "p = d # r" and d: "is_digit d" by (cases p) auto
  from d have "d \<noteq> 0x49" by (auto simp: is_digit_def)
  then show ?thesis by (simp add: p str_def)
qed

lemma pow10_neg_length: "pow10 (- int (length fp)) = 1 / 10 ^ length fp"
  by (auto simp: pow10_def)

lemma unsigned_decimal_whole:
  assumes "p \<noteq> []" "list_all is_digit p" "list_all (\<lambda>c. \<not> is_digit c) g"
  shows "\<exists>rest. unsigned_decimal (p @ g) = Some (Some (of_nat (digits_val p)), rest)"
proof -
  have h: "is_digit (hd p)" using assms(1,2) by (cases p) auto
  note inf = not_Infinity [OF assms(1) h, of g]
  note tk = takeWhile_digits_append [OF assms(2,3)]
  note dr = dropWhile_digits_append [OF assms(2,3)]
  show ?thesis
  proof (cases g)
    case Nil
    have tk0: "takeWhile is_digit p = p" using assms(2) by (simp add: list_all_iff)
    have dr0: "dropWhile is_digit p = []" using assms(2) by (simp add: list_all_iff)
    have inf0: "take 8 p \<noteq> str ''Infinity''" using inf Nil by simp
    show ?thesis
      unfolding Nil using inf0 assms(1) by (simp add: unsigned_decimal_def Let_def tk0 dr0)
  next
    case (Cons c r2)
    with assms(3) have r2: "list_all (\<lambda>c. \<not> is_digit c) r2" by simp
    have e1: "exponent_part r2 = (0, r2)" using r2 by (rule exponent_part_no_digits)
    have e2: "exponent_part (c # r2) = (0, c # r2)"
      using assms(3) Cons exponent_part_no_digits [of g] by simp
    have t2: "takeWhile is_digit r2 = []" using r2 by (rule takeWhile_no_digits)
    have d2: "dropWhile is_digit r2 = r2" using r2 by (rule dropWhile_no_digits)
    have tk': "takeWhile is_digit (p @ c # r2) = p" using tk Cons by simp
    have dr': "dropWhile is_digit (p @ c # r2) = c # r2" using dr Cons by simp
    have inf': "take 8 (p @ c # r2) \<noteq> str ''Infinity''" using inf Cons by simp
    show ?thesis
      unfolding Cons unsigned_decimal_def Let_def tk' dr'
      using inf' assms(1) by (simp add: e1 e2 t2 d2 pow10_def)
  qed
qed

lemma unsigned_decimal_frac:
  assumes "ip \<noteq> []" "list_all is_digit ip" "list_all is_digit fp" "list_all (\<lambda>c. \<not> is_digit c) g"
  shows "unsigned_decimal ((ip @ dot # fp) @ g)
           = Some (Some (of_nat (digits_val (ip @ fp)) / 10 ^ length fp), g)"
proof -
  have h: "is_digit (hd (ip @ dot # fp))" using assms(1,2) by (cases ip) auto
  have inf: "take 8 (ip @ dot # fp @ g) \<noteq> str ''Infinity''"
    using not_Infinity [of "ip @ dot # fp" g] h by simp
  have nd: "list_all (\<lambda>c. \<not> is_digit c) [dot]" by (simp add: not_digit_dot)
  have tk: "takeWhile is_digit (ip @ dot # fp @ g) = ip"
    using assms(2) by (simp add: list_all_iff not_digit_dot)
  have dr: "dropWhile is_digit (ip @ dot # fp @ g) = dot # fp @ g"
    using assms(2) by (simp add: list_all_iff not_digit_dot)
  note tk2 = takeWhile_digits_append [OF assms(3,4)]
  note dr2 = dropWhile_digits_append [OF assms(3,4)]
  note e = exponent_part_no_digits [OF assms(4)]
  show ?thesis
    using inf assms(1) by (simp add: unsigned_decimal_def Let_def tk dr tk2 dr2 e pow10_neg_length)
qed

lemma decimal_value_whole:
  assumes "list_all is_digit p"
  shows "decimal_value p = of_nat (digits_val p)"
proof -
  have tk: "takeWhile is_digit p = p" using assms by (simp add: list_all_iff)
  have dr: "dropWhile is_digit p = []" using assms by (simp add: list_all_iff)
  show ?thesis by (simp add: decimal_value_def tk dr)
qed

lemma decimal_value_frac:
  "list_all is_digit ip \<Longrightarrow> decimal_value (ip @ dot # fp) = of_nat (digits_val (ip @ fp)) / 10 ^ length fp"
  by (simp add: decimal_value_def list_all_iff not_digit_dot)

lemma unsigned_decimal_prefix:
  assumes "decimal_number p" "list_all (\<lambda>c. \<not> is_digit c) g"
  shows "\<exists>rest. unsigned_decimal (p @ g) = Some (Some (decimal_value p), rest)"
  using assms(1)
proof (cases rule: decimal_number_cases)
  case whole
  then show ?thesis
    using unsigned_decimal_whole [OF whole assms(2)] by (simp add: decimal_value_whole)
next
  case (frac ip fp)
  then show ?thesis
    using unsigned_decimal_frac [OF frac(2-4) assms(2)] by (simp add: decimal_value_frac)
qed

lemma is_digit_not_space: "is_digit c \<Longrightarrow> \<not> is_space c"
  by (auto simp: is_digit_def is_space_def word_le_nat_alt)

lemma is_digit_not_sign: "is_digit c \<Longrightarrow> c \<noteq> plus_sign \<and> c \<noteq> minus_sign \<and> c \<noteq> comma"
  by (auto simp: is_digit_def plus_sign_def minus_sign_def comma_def)

lemma decimal_number_hd: "decimal_number p \<Longrightarrow> p \<noteq> [] \<and> is_digit (hd p)"
  by (cases p) (auto simp: decimal_number_def split: if_splits)

lemma decimal_number_no_comma:
  assumes "decimal_number p"
  shows "comma \<notin> set p"
  using assms
proof (cases rule: decimal_number_cases)
  case whole
  then show ?thesis using is_digit_not_sign by (auto simp: list_all_iff)
next
  case (frac ip fp)
  then show ?thesis using is_digit_not_sign by (auto simp: list_all_iff dot_def comma_def)
qed

lemma js_replace_append: "a \<notin> set p \<Longrightarrow> js_replace a b (p @ g) = p @ js_replace a b g"
  by (induction p) auto

lemma js_replace_no_digits:
  "list_all (\<lambda>c. \<not> is_digit c) g \<Longrightarrow> list_all (\<lambda>c. \<not> is_digit c) (js_replace comma dot g)"
  by (induction g) (auto simp: not_digit_dot)

lemma js_parseFloat_prefix:
  assumes "decimal_number p" "list_all (\<lambda>c. \<not> is_digit c) g"
  shows "js_parseFloat (p @ g) = to_double False (decimal_value p)"
proof -
  from decimal_number_hd [OF assms(1)] obtain d r where p: "p = d # r" and d: "is_digit d"
    by (cases p) auto
  have trim: "js_trimStart (p @ g) = p @ g"
    using is_digit_not_space [OF d] by (simp add: js_trimStart_def p)
  obtain rest where u: "unsigned_decimal (p @ g) = Some (Some (decimal_value p), rest)"
    using unsigned_decimal_prefix [OF assms] by blast
  have "str_decimal_literal (p @ g) = Some (to_double False (decimal_value p), rest)"
    using is_digit_not_sign [OF d] u unfolding p
    by (simp add: str_decimal_literal_def)
  then show ?thesis by (simp add: js_parseFloat_def trim)
qed

lemma to_double_nonneg: "\<not> js_isNaN (to_double False q) \<and> ge_zero (to_double False q)"
  by (simp add: to_double_def Let_def js_isNaN_def ge_zero_def)

section \<open>The attribute-list normalizer on a field without a bar\<close>

text \<open>
  C1 (as the code has it).  \<open>processEventAttributes\<close> returns \<open>undefined\<close> for every
  field that does not contain \<open>|\<close>, and \<open>normalizeAttributes\<close> turns that into the empty
  array: a non-empty field without \<open>|\<close> yields no attribute at all, it is not split on
  \<open>=\<close>.
\<close>

theorem C1_no_bar_gives_empty:
  "raw \<noteq> [] \<Longrightarrow> \<not> js_includes raw bar \<Longrightarrow> normalizeAttributes (Some raw) = Inr []"
  by (simp add: normalizeAttributes_no_bar js_includes_def)

theorem C1_no_bar_gives_empty_witness:
  "str ''event1'' \<noteq> [] \<and> \<not> js_includes (str ''event1'') bar
   \<and> normalizeAttributes (Some (str ''event1'')) = Inr []"
  using C1_no_bar_gives_empty [of "str ''event1''"]
  by (simp add: str_def js_includes_def bar_def)

text \<open>
  C1 as stated fails: normalizing \<open>"eVar1=Value1"\<close> gives the empty sequence, not the
  single attribute \<open>{eVar1: "Value1"}\<close>.
\<close>

theorem C1_single_entry_counterexample:
  "normalizeAttributes (Some (str ''eVar1=Value1'')) = Inr []
   \<and> normalizeAttributes (Some (str ''eVar1=Value1'')) \<noteq> Inr [(str ''eVar1'', Some (str ''Value1''))]"
  by (simp add: normalizeAttributes_no_bar str_def bar_def)

section \<open>The number of products\<close>

text \<open>
  C2 (as the code has it).  The validator returns one product for each piece of the
  input split on \<open>,\<close> when the input has a character that is not white space, and no
  product at all when the input is empty or white space only.
\<close>

theorem C2_count:
  "\<exists>ps. validateProductString s = Inr ps
     \<and> length ps = (if js_trim s = [] then 0 else length (js_split comma s))"
  by (rule validateProductString_length)

text \<open>
  C2 as stated fails at the empty string: it splits into one (empty) piece, and the
  validator returns no product.
\<close>

theorem C2_empty_counterexample:
  "validateProductString [] = Inr [] \<and> length ([] :: Product list) \<noteq> length (js_split comma [])"
  by (simp add: validateProductString_def js_trim_def js_trimStart_def js_trimEnd_def)

section \<open>A category that looks like a price fragment\<close>

text \<open>
  C3.  \<open>products\<close> are the products parsed from the pieces of the input.  When the
  trimmed category of one of them matches \<open>/^\d+[.,]\d*$/\<close> or \<open>/^\d+$/\<close>, the
  validator returns a sequence, not empty, in which every product has \<open>isValid\<close> false,
  so that the whole-string flag is false.
\<close>

theorem C3_cascade:
  assumes parsed: "mapE parseProduct (js_split comma s) = Inr products"
      and p: "p \<in> set products"
      and m: "looks_like_price (js_trim (category p)) \<or> just_numbers (js_trim (category p))"
  shows "\<exists>ps. validateProductString s = Inr ps \<and> ps \<noteq> []
           \<and> list_all (\<lambda>q. \<not> isValid q) ps \<and> \<not> isStringValid ps"
proof -
  from m have t: "js_trim (category p) \<noteq> []" using no_match_Nil by auto
  then have c: "category p \<noteq> []" by auto
  obtain segment where seg: "segment \<in> set (js_split comma s)" "parseProduct segment = Inr p"
    using mapE_Inr_set [OF parsed p] by blast
  have "category p = hd (js_split semicolon segment)" using seg(2) by (rule parseProduct_category)
  then have "category p \<in> set (js_split semicolon segment)"
    using js_split_not_Nil [of semicolon segment] by simp
  then have "set (category p) \<subseteq> set segment" by (rule js_split_piece_subset)
  also have "set segment \<subseteq> set s" using seg(1) by (rule js_split_piece_subset)
  finally have sub: "set (category p) \<subseteq> set s" .
  have ne: "js_trim s \<noteq> []"
  proof
    assume "js_trim s = []"
    then have "list_all is_space s" by (simp add: js_trim_Nil_iff)
    with sub have "list_all is_space (category p)" by (auto simp: list_all_iff)
    then have "js_trim (category p) = []" by (simp add: js_trim_Nil_iff)
    with t show False by simp
  qed
  have d: "detectCascading products" using p c m by (auto simp: detectCascading_eq list_ex_iff)
  let ?ps = "cascadeInvalidity True products"
  have r: "validateProductString s = Inr ?ps"
    using ne parsed d by (simp add: validateProductString_def)
  have n: "?ps \<noteq> []" using p by (auto simp: cascadeInvalidity_def)
  have a: "list_all (\<lambda>q. \<not> isValid q) ?ps" by (rule cascadeInvalidity_True_all_invalid)
  have "\<not> isStringValid ?ps" using n a by (cases ?ps) (auto simp: isStringValid_def)
  with r n a show ?thesis by blast
qed

theorem C3_cascade_witness:
  "mapE parseProduct (js_split comma (str ''A;B;1;2,12.5;C;1;1'')) =
     Inr [\<lparr>category = str ''A'', item = str ''B'', quantity = Num False 1,
            price = Num False 2, events = [], evars = [], isValid = True\<rparr>,
          \<lparr>category = str ''12.5'', item = str ''C'', quantity = Num False 1,
            price = Num False 1, events = [], evars = [], isValid = True\<rparr>]
   \<and> looks_like_price (js_trim (str ''12.5''))
   \<and> (\<exists>ps. validateProductString (str ''A;B;1;2,12.5;C;1;1'') = Inr ps \<and> ps \<noteq> []
          \<and> list_all (\<lambda>q. \<not> isValid q) ps \<and> \<not> isStringValid ps)"
proof -
  let ?p1 = "\<lparr>category = str ''A'', item = str ''B'', quantity = Num False 1,
            price = Num False 2, events = [], evars = [], isValid = True\<rparr>"
  let ?p2 = "\<lparr>category = str ''12.5'', item = str ''C'', quantity = Num False 1,
            price = Num False 1, events = [], evars = [], isValid = True\<rparr>"
  have a: "mapE parseProduct (js_split comma (str ''A;B;1;2,12.5;C;1;1'')) = Inr [?p1, ?p2]"
    by (simp add: eval_defs)
  have b: "?p2 \<in> set [?p1, ?p2]" by simp
  have c: "looks_like_price (js_trim (str ''12.5''))"
    by (simp add: eval_defs)
  then have c': "looks_like_price (js_trim (category ?p2)) \<or> just_numbers (js_trim (category ?p2))"
    by simp
  from a c C3_cascade [OF a b c'] show ?thesis by simp
qed

section \<open>The validity of one segment\<close>

text \<open>
  C4.  For every segment the segment parser returns a product, and its \<open>isValid\<close> is
  true exactly when the segment has four fields or more, the name is not empty after
  trimming and the price field, with its first comma replaced by a dot, parses to a
  number that is not negative (an empty price field counts as 0): \<open>spec_isValid\<close>.
  The segment \<open>"Cat;Name;1"\<close> of three fields is not valid.
\<close>

theorem C4_validity:
  "(\<exists>p. parseProduct segment = Inr p \<and> isValid p = spec_isValid segment)
   \<and> (\<exists>p. parseProduct (str ''Cat;Name;1'') = Inr p \<and> \<not> isValid p)"
proof -
  obtain p where p: "parseProduct segment = Inr p" using parseProduct_total by blast
  obtain q where q: "parseProduct (str ''Cat;Name;1'') = Inr q" using parseProduct_total by blast
  have "length (js_split semicolon (str ''Cat;Name;1'')) = 3"
    by (simp add: str_def semicolon_def)
  then have "\<not> isValid q" using parseProduct_isValid [OF q] by simp
  with p q parseProduct_refines_spec [OF p] show ?thesis by blast
qed

theorem C4_validity_witness:
  "parseProduct (str ''Cat;Name;1;3.50'') =
     Inr \<lparr>category = str ''Cat'', item = str ''Name'', quantity = Num False 1,
          price = Num False (7 / 2), events = [], evars = [], isValid = True\<rparr>
   \<and> spec_isValid (str ''Cat;Name;1;3.50'')
   \<and> parseProduct (str ''Cat; ;1;3.50'') =
     Inr \<lparr>category = str ''Cat'', item = str '' '', quantity = Num False 1,
          price = Num False (7 / 2), events = [], evars = [], isValid = False\<rparr>
   \<and> \<not> spec_isValid (str ''Cat; ;1;3.50'')"
proof -
  have a: "parseProduct (str ''Cat;Name;1;3.50'') =
     Inr \<lparr>category = str ''Cat'', item = str ''Name'', quantity = Num False 1,
          price = Num False (7 / 2), events = [], evars = [], isValid = True\<rparr>"
    by (simp add: eval_defs)
  have b: "parseProduct (str ''Cat; ;1;3.50'') =
     Inr \<lparr>category = str ''Cat'', item = str '' '', quantity = Num False 1,
          price = Num False (7 / 2), events = [], evars = [], isValid = False\<rparr>"
    by (simp add: eval_defs)
  show ?thesis
    using C4_validity [of "str ''Cat;Name;1;3.50''"] C4_validity [of "str ''Cat; ;1;3.50''"]
    unfolding a b by simp
qed

section \<open>The collision of the two uses of the comma\<close>

text \<open>
  C5.  The input \<open>"Cat;Name;1;3,50"\<close> splits into \<open>"Cat;Name;1;3"\<close> and \<open>"50"\<close>.
  The second product has the category \<open>"50"\<close>, which is digits only, so the flag
  \<open>hasCascadingError\<close> is set, and the two products returned are both invalid; the
  first was valid before the pass, with the price 3 and not 3.5.  No field of a piece
  of an input split on commas contains a comma: the replacement of a comma by a dot
  in a price field never changes it.
\<close>

theorem C5_collision:
  "js_split comma (str ''Cat;Name;1;3,50'') = [str ''Cat;Name;1;3'', str ''50'']
   \<and> mapE parseProduct (js_split comma (str ''Cat;Name;1;3,50'')) =
       Inr [\<lparr>category = str ''Cat'', item = str ''Name'', quantity = Num False 1,
              price = Num False 3, events = [], evars = [], isValid = True\<rparr>,
            \<lparr>category = str ''50'', item = [], quantity = Num False 0,
              price = Num False 0, events = [], evars = [], isValid = False\<rparr>]
   \<and> just_numbers (js_trim (str ''50''))
   \<and> detectCascading
        [\<lparr>category = str ''Cat'', item = str ''Name'', quantity = Num False 1,
              price = Num False 3, events = [], evars = [], isValid = True\<rparr>,
         \<lparr>category = str ''50'', item = [], quantity = Num False 0,
              price = Num False 0, events = [], evars = [], isValid = False\<rparr>]
   \<and> validateProductString (str ''Cat;Name;1;3,50'') =
       Inr [\<lparr>category = str ''Cat'', item = str ''Name'', quantity = Num False 1,
              price = Num False 3, events = [], evars = [], isValid = False\<rparr>,
            \<lparr>category = str ''50'', item = [], quantity = Num False 0,
              price = Num False 0, events = [], evars = [], isValid = False\<rparr>]
   \<and> js_parseFloat (js_replace comma dot (str ''3,50'')) = Num False (7 / 2)
   \<and> (\<forall>t segment field. segment \<in> set (js_split comma t) \<longrightarrow> field \<in> set (js_split semicolon segment)
         \<longrightarrow> js_replace comma dot field = field)"
proof -
  have general: "js_replace comma dot field = field"
    if "segment \<in> set (js_split comma t)" "field \<in> set (js_split semicolon segment)"
    for t segment field
  proof -
    have "comma \<notin> set segment" using that(1) by (rule js_split_piece_no_sep)
    moreover have "set field \<subseteq> set segment" using that(2) by (rule js_split_piece_subset)
    ultimately have "comma \<notin> set field" by blast
    then show ?thesis by (rule js_replace_id)
  qed
  have concrete: "js_split comma (str ''Cat;Name;1;3,50'') = [str ''Cat;Name;1;3'', str ''50'']
   \<and> mapE parseProduct (js_split comma (str ''Cat;Name;1;3,50'')) =
       Inr [\<lparr>category = str ''Cat'', item = str ''Name'', quantity = Num False 1,
              price = Num False 3, events = [], evars = [], isValid = True\<rparr>,
            \<lparr>category = str ''50'', item = [], quantity = Num False 0,
              price = Num False 0, events = [], evars = [], isValid = False\<rparr>]
   \<and> just_numbers (js_trim (str ''50''))
   \<and> detectCascading
        [\<lparr>category = str ''Cat'', item = str ''Name'', quantity = Num False 1,
              price = Num False 3, events = [], evars = [], isValid = True\<rparr>,
         \<lparr>category = str ''50'', item = [], quantity = Num False 0,
              price = Num False 0, events = [], evars = [], isValid = False\<rparr>]
   \<and> validateProductString (str ''Cat;Name;1;3,50'') =
       Inr [\<lparr>category = str ''Cat'', item = str ''Name'', quantity = Num False 1,
              price = Num False 3, events = [], evars = [], isValid = False\<rparr>,
            \<lparr>category = str ''50'', item = [], quantity = Num False 0,
              price = Num False 0, events = [], evars = [], isValid = False\<rparr>]
   \<and> js_parseFloat (js_replace comma dot (str ''3,50'')) = Num False (7 / 2)"
    by (simp add: eval_defs)
  from concrete general show ?thesis by blast
qed

theorem C5_collision_witness:
  "str ''Cat;Name;1;3'' \<in> set (js_split comma (str ''Cat;Name;1;3,50''))
   \<and> str ''3'' \<in> set (js_split semicolon (str ''Cat;Name;1;3''))
   \<and> js_replace comma dot (str ''3'') = str ''3''"
proof -
  have a: "str ''Cat;Name;1;3'' \<in> set (js_split comma (str ''Cat;Name;1;3,50''))"
    by (simp add: str_def comma_def)
  have b: "str ''3'' \<in> set (js_split semicolon (str ''Cat;Name;1;3''))"
    by (simp add: str_def semicolon_def)
  from C5_collision have "js_replace comma dot (str ''3'') = str ''3''"
    using a b by blast
  with a b show ?thesis by simp
qed

section \<open>No input raises an error\<close>

text \<open>
  C6.  For every input string the validator returns a sequence of products: none of
  the method calls on a value that may be \<open>undefined\<close> is reached with \<open>undefined\<close>.
  For the empty string it returns the empty sequence, and the whole-string flag of the
  empty sequence is true.
\<close>

theorem C6_never_raises:
  "(\<exists>ps. validateProductString s = Inr ps)
   \<and> validateProductString [] = Inr [] \<and> isStringValid []"
  using validateProductString_total [of s]
  by (simp add: validateProductString_def js_trim_def js_trimStart_def js_trimEnd_def isStringValid_def)

theorem C6_never_raises_witness:
  "(\<exists>ps. validateProductString (str '',;|=;;,'') = Inr ps)
   \<and> validateProductString (str '','') =
       Inr [\<lparr>category = [], item = [], quantity = Num False 0, price = Num False 0,
              events = [], evars = [], isValid = False\<rparr>,
            \<lparr>category = [], item = [], quantity = Num False 0, price = Num False 0,
              events = [], evars = [], isValid = False\<rparr>]"
proof -
  have "validateProductString (str '','') =
       Inr [\<lparr>category = [], item = [], quantity = Num False 0, price = Num False 0,
              events = [], evars = [], isValid = False\<rparr>,
            \<lparr>category = [], item = [], quantity = Num False 0, price = Num False 0,
              events = [], evars = [], isValid = False\<rparr>]"
    by (simp add: eval_defs)
  with C6_never_raises [of "str '',;|=;;,''"] show ?thesis by simp
qed

section \<open>A value that contains an equals sign\<close>

text \<open>
  C7.  The code at the field \<open>"k=a=b|x=1"\<close>: the piece \<open>"k=a=b"\<close> is split on every
  \<open>=\<close> and only the first two parts are kept, so the value is \<open>"a"\<close> and the
  characters \<open>"=b"\<close> are dropped; the value is not \<open>"a=b"\<close>.
\<close>

theorem C7_first_equals_only_fails:
  "processEventAttributes (Some (str ''k=a=b|x=1''))
     = Inr (Some [(str ''k'', Some (str ''a'')), (str ''x'', Some (str ''1''))])
   \<and> normalizeAttributes (Some (str ''k=a=b|x=1''))
     = Inr [(str ''k'', Some (str ''a'')), (str ''x'', Some (str ''1''))]
   \<and> Some (str ''a'') \<noteq> Some (str ''a=b'')"
  by (simp add: eval_defs)

section \<open>The frame of the cascading pass\<close>

text \<open>
  C8.  The pass that cascades the invalidity keeps the number and the order of the
  products, and in each product the category, the item, the quantity, the price, the
  events and the evars; a product that is valid after the pass was valid before it,
  and \<open>isValid\<close> changes only from true to false.
\<close>

theorem C8_frame:
  "list_all2 (\<lambda>before after.
       category after = category before \<and> item after = item before
     \<and> quantity after = quantity before \<and> price after = price before
     \<and> events after = events before \<and> evars after = evars before
     \<and> (isValid after \<longrightarrow> isValid before)
     \<and> (isValid after \<noteq> isValid before \<longrightarrow> isValid before \<and> \<not> isValid after))
     products (cascadeInvalidity hasCascadingError products)"
  by (induction products) (auto simp: cascadeInvalidity_def)

theorem C8_frame_witness:
  "cascadeInvalidity True
     [\<lparr>category = str ''A'', item = str ''B'', quantity = Num False 1, price = Num False 2,
        events = [], evars = [], isValid = True\<rparr>,
      \<lparr>category = str ''7'', item = [], quantity = Num False 0, price = Num False 0,
        events = [], evars = [], isValid = False\<rparr>]
   = [\<lparr>category = str ''A'', item = str ''B'', quantity = Num False 1, price = Num False 2,
        events = [], evars = [], isValid = False\<rparr>,
      \<lparr>category = str ''7'', item = [], quantity = Num False 0, price = Num False 0,
        events = [], evars = [], isValid = False\<rparr>]
   \<and> list_all2 (\<lambda>before after.
       category after = category before \<and> item after = item before
     \<and> quantity after = quantity before \<and> price after = price before
     \<and> events after = events before \<and> evars after = evars before
     \<and> (isValid after \<longrightarrow> isValid before)
     \<and> (isValid after \<noteq> isValid before \<longrightarrow> isValid before \<and> \<not> isValid after))
     [\<lparr>category = str ''A'', item = str ''B'', quantity = Num False 1, price = Num False 2,
        events = [], evars = [], isValid = True\<rparr>,
      \<lparr>category = str ''7'', item = [], quantity = Num False 0, price = Num False 0,
        events = [], evars = [], isValid = False\<rparr>]
     (cascadeInvalidity True
       [\<lparr>category = str ''A'', item = str ''B'', quantity = Num False 1, price = Num False 2,
          events = [], evars = [], isValid = True\<rparr>,
        \<lparr>category = str ''7'', item = [], quantity = Num False 0, price = Num False 0,
          events = [], evars = [], isValid = False\<rparr>])"
proof -
  let ?ps = "[\<lparr>category = str ''A'', item = str ''B'', quantity = Num False 1, price = Num False 2,
        events = [], evars = [], isValid = True\<rparr>,
      \<lparr>category = str ''7'', item = [], quantity = Num False 0, price = Num False 0,
        events = [], evars = [], isValid = False\<rparr>]"
  have "cascadeInvalidity True ?ps
   = [\<lparr>category = str ''A'', item = str ''B'', quantity = Num False 1, price = Num False 2,
        events = [], evars = [], isValid = False\<rparr>,
      \<lparr>category = str ''7'', item = [], quantity = Num False 0, price = Num False 0,
        events = [], evars = [], isValid = False\<rparr>]"
    by (simp add: cascadeInvalidity_def)
  with C8_frame [of ?ps True] show ?thesis by blast
qed

section \<open>White space only\<close>

text \<open>
  C9.  A non-empty input that trims to the empty string gives the empty sequence of
  products, although it splits on \<open>,\<close> into one piece (the input itself).
\<close>

theorem C9_whitespace_only:
  assumes "s \<noteq> []" and "js_trim s = []"
  shows "validateProductString s = Inr [] \<and> js_split comma s = [s] \<and> length (js_split comma s) = 1"
proof -
  from assms(2) have "list_all is_space s" by (simp add: js_trim_Nil_iff)
  then have "comma \<notin> set s" using is_space_not_comma by (auto simp: list_all_iff)
  then have "js_split comma s = [s]" by (rule js_split_no_sep)
  with assms(2) show ?thesis by (simp add: validateProductString_def)
qed

theorem C9_whitespace_only_witness:
  "[0x20, 0x09] \<noteq> ([] :: jsstring) \<and> js_trim [0x20, 0x09] = []
   \<and> validateProductString [0x20, 0x09] = Inr [] \<and> js_split comma [0x20, 0x09] = [[0x20, 0x09]]"
proof -
  have a: "[0x20, 0x09] \<noteq> ([] :: jsstring)" by simp
  have b: "js_trim [0x20, 0x09] = []"
    by (simp add: js_trim_def js_trimStart_def js_trimEnd_def is_space_def)
  show ?thesis using a b C9_whitespace_only [OF a b] by simp
qed

section \<open>Characters after the number in a price field\<close>

text \<open>
  C10.  In a segment of four fields or more, with a name that is not empty after
  trimming, let the price field be a decimal number \<open>p\<close> that is not negative (digits,
  then optionally a dot and digits) followed by characters none of which is a digit.
  Then the parser returns a product whose price is the value of \<open>p\<close> (as a binary64
  number, which is also what \<open>parseFloat\<close> gives for \<open>p\<close> alone), and the product is
  valid: the characters after the number are ignored.
\<close>

theorem C10_trailing_garbage:
  assumes fields: "js_split semicolon segment = cat # name # qty # (p @ garbage) # rest"
      and name: "js_trim name \<noteq> []"
      and number: "decimal_number p"
      and garbage: "list_all (\<lambda>c. \<not> is_digit c) garbage"
  shows "\<exists>product. parseProduct segment = Inr product
           \<and> price product = to_double False (decimal_value p)
           \<and> price product = js_parseFloat p
           \<and> isValid product"
proof -
  obtain product where product: "parseProduct segment = Inr product"
    using parseProduct_total by blast
  let ?g = "js_replace comma dot garbage"
  have g: "list_all (\<lambda>c. \<not> is_digit c) ?g" using garbage by (rule js_replace_no_digits)
  have rep: "js_replace comma dot (p @ garbage) = p @ ?g"
    using decimal_number_no_comma [OF number] by (rule js_replace_append)
  have ne: "p \<noteq> []" using decimal_number_hd [OF number] by simp
  have field: "or_else (opt_call (elem_at (js_split semicolon segment) 3) (js_replace comma dot)) (str ''0'') = p @ ?g"
    by (simp add: fields elem_at_def opt_call_def or_else_def rep ne)
  have pr: "price product = to_double False (decimal_value p)"
    using parseProduct_price [OF product] js_parseFloat_prefix [OF number g] by (simp add: field)
  have same: "js_parseFloat p = to_double False (decimal_value p)"
    using js_parseFloat_prefix [OF number, of "[]"] by simp
  have "isValid product"
    using parseProduct_isValid [OF product] name to_double_nonneg [of "decimal_value p"]
      js_parseFloat_prefix [OF number g]
    by (simp add: field) (simp add: fields elem_at_def)
  with product pr same show ?thesis by simp
qed

theorem C10_trailing_garbage_witness:
  "js_split semicolon (str ''Cat;Name;1;5.99abc'') = [str ''Cat'', str ''Name'', str ''1'', str ''5.99'' @ str ''abc'']
   \<and> js_trim (str ''Name'') \<noteq> []
   \<and> decimal_number (str ''5.99'')
   \<and> list_all (\<lambda>c. \<not> is_digit c) (str ''abc'')
   \<and> to_double False (decimal_value (str ''5.99'')) = Num False (3372070220993659 / 562949953421312)
   \<and> (\<exists>product. parseProduct (str ''Cat;Name;1;5.99abc'') = Inr product
         \<and> price product = Num False (3372070220993659 / 562949953421312)
         \<and> isValid product)"
proof -
  have a: "js_split semicolon (str ''Cat;Name;1;5.99abc'') = str ''Cat'' # str ''Name'' # str ''1'' # (str ''5.99'' @ str ''abc'') # []"
    by (simp add: str_def semicolon_def)
  have b: "js_trim (str ''Name'') \<noteq> []"
    by (simp add: str_def js_trim_def js_trimStart_def js_trimEnd_def is_space_def)
  have c: "decimal_number (str ''5.99'')"
    by (simp add: str_def decimal_number_def is_digit_def dot_def)
  have d: "list_all (\<lambda>c. \<not> is_digit c) (str ''abc'')"
    by (simp add: str_def is_digit_def)
  have e: "to_double False (decimal_value (str ''5.99'')) = Num False (3372070220993659 / 562949953421312)"
    by (simp add: eval_defs decimal_value_def)
  from C10_trailing_garbage [OF a b c d] obtain product
    where "parseProduct (str ''Cat;Name;1;5.99abc'') = Inr product"
      and "price product = to_double False (decimal_value (str ''5.99''))"
      and "isValid product"
    by blast
  then have "\<exists>product. parseProduct (str ''Cat;Name;1;5.99abc'') = Inr product
         \<and> price product = Num False (3372070220993659 / 562949953421312)
         \<and> isValid product"
    using e by auto
  with a b c d e show ?thesis by simp
qed

end
